theory Spec2Isabelle
  imports Main "HOL-Library.Multiset" "HOL-Library.Sublist"
begin

section \<open>Data model (the types module of the site)\<close>

text \<open>
  The environment kinds are the string-literal union \<^verbatim>\<open>'test' | 'staging' | 'prod'\<close>;
  \<open>env_string\<close> gives the spelling a kind has as a JavaScript string. The types module
  exists in a second version that spells the kinds \<^verbatim>\<open>'TEST' | 'PRE' | 'PROD'\<close>. The
  sort-weight table of the build script is keyed by the lower-case spellings, so the
  lower-case declaration is the one the build script type-checks against, and the one
  modelled.
\<close>

datatype EnvType = Test | Staging | Prod

fun env_string :: "EnvType \<Rightarrow> string" where
  "env_string Test = ''test''"
| "env_string Staging = ''staging''"
| "env_string Prod = ''prod''"

text \<open>
  The interfaces become records. Field names carry a one-letter prefix of their record,
  because several interfaces share the names \<open>id\<close>, \<open>name\<close>, \<open>order\<close>; an optional
  field \<^verbatim>\<open>f?: T\<close> is a \<open>T option\<close>. The schema restricts every \<open>order\<close> to
  integers, so numbers are \<open>int\<close>.
\<close>

record Category =
  c_id :: string
  c_name :: string
  c_description :: "string option"
  c_icon :: "string option"
  c_order :: "int option"

record Project =
  p_id :: string
  p_name :: string
  p_description :: "string option"
  p_categoryId :: string
  p_icon :: "string option"
  p_order :: "int option"

record ProjectEnv =
  e_projectId :: string
  e_env :: EnvType
  e_url :: string
  e_description :: "string option"
  e_enabled :: bool


record NavigationItem =
  n_id :: string
  n_projectId :: string
  n_projectName :: string
  n_projectDescription :: "string option"
  n_categoryId :: string
  n_env :: EnvType
  n_url :: string
  n_envDescription :: "string option"
  n_icon :: "string option"
  n_enabled :: bool
  n_order :: int


section \<open>The build script: expansion\<close>

text \<open>\<^verbatim>\<open>getEnvOrder\<close>: the lookup in the table \<^verbatim>\<open>{ prod: 1, staging: 2, test: 3 }\<close>.\<close>

fun getEnvOrder :: "EnvType \<Rightarrow> int" where
  "getEnvOrder Prod = 1"
| "getEnvOrder Staging = 2"
| "getEnvOrder Test = 3"

text \<open>
  The table as the script writes it, keyed by spelling. \<open>getEnvOrder\<close> is the lookup of a
  kind's spelling in it (lemma \<open>getEnvOrder_orderMap\<close>).
\<close>

definition orderMap :: "(string \<times> int) list" where
  "orderMap = [(''prod'', 1), (''staging'', 2), (''test'', 3)]"

text \<open>The object literal pushed for one project and one of its env records.\<close>

definition navItem :: "Project \<Rightarrow> ProjectEnv \<Rightarrow> NavigationItem" where
  "navItem project env =
     \<lparr> n_id = p_id project @ ''-'' @ env_string (e_env env),
       n_projectId = p_id project,
       n_projectName = p_name project,
       n_projectDescription = p_description project,
       n_categoryId = p_categoryId project,
       n_env = e_env env,
       n_url = e_url env,
       n_envDescription = e_description env,
       n_icon = p_icon project,
       n_enabled = e_enabled env,
       n_order = getEnvOrder (e_env env) \<rparr>"

text \<open>
  \<^verbatim>\<open>expandNavigationItems\<close>: two nested \<^verbatim>\<open>for ... of\<close> loops that push onto the
  array \<open>items\<close>. The array is threaded through both loops.
\<close>

fun push_envs :: "Project \<Rightarrow> ProjectEnv list \<Rightarrow> NavigationItem list \<Rightarrow> NavigationItem list" where
  "push_envs project [] items = items"
| "push_envs project (env # envs) items = push_envs project envs (items @ [navItem project env])"

fun expand_loop :: "Project list \<Rightarrow> ProjectEnv list \<Rightarrow> NavigationItem list \<Rightarrow> NavigationItem list" where
  "expand_loop [] projectEnvs items = items"
| "expand_loop (project # projects) projectEnvs items =
     expand_loop projects projectEnvs
       (push_envs project (filter (\<lambda>e. e_projectId e = p_id project) projectEnvs) items)"

definition expandNavigationItems :: "Project list \<Rightarrow> ProjectEnv list \<Rightarrow> NavigationItem list" where
  "expandNavigationItems projects projectEnvs = expand_loop projects projectEnvs []"


section \<open>The build script: aggregation\<close>

record CategoryBlock =
  category :: Category
  items :: "NavigationItem list"

text \<open>
  \<^verbatim>\<open>Array.prototype.sort\<close> with a comparison function. The language guarantees a stable
  sort; for a consistent comparison function the result is the one stable arrangement, which
  insertion from the right computes: an element goes in front of the first element it does
  not sort after, so it stays ahead of the later elements it ties with.
\<close>

fun insert_by :: "('a \<Rightarrow> 'a \<Rightarrow> int) \<Rightarrow> 'a \<Rightarrow> 'a list \<Rightarrow> 'a list" where
  "insert_by cmp x [] = [x]"
| "insert_by cmp x (y # ys) = (if cmp x y \<le> 0 then x # y # ys else y # insert_by cmp x ys)"

definition js_sort :: "('a \<Rightarrow> 'a \<Rightarrow> int) \<Rightarrow> 'a list \<Rightarrow> 'a list" where
  "js_sort cmp xs = foldr (insert_by cmp) xs []"

text \<open>
  The comparison function of the item sort. \<^verbatim>\<open>localeCompare\<close> is the host's collation and
  is a parameter \<open>lc\<close>: negative, zero or positive.
\<close>

definition compareItems :: "(string \<Rightarrow> string \<Rightarrow> int) \<Rightarrow> NavigationItem \<Rightarrow> NavigationItem \<Rightarrow> int" where
  "compareItems lc a b =
     (if n_order a \<noteq> n_order b then n_order a - n_order b
      else lc (n_projectName a) (n_projectName b))"

text \<open>\<^verbatim>\<open>category.order ?? 999\<close>\<close>

definition orderOrDefault :: "Category \<Rightarrow> int" where
  "orderOrDefault c = (case c_order c of None \<Rightarrow> 999 | Some n \<Rightarrow> n)"

definition compareBlocks :: "CategoryBlock \<Rightarrow> CategoryBlock \<Rightarrow> int" where
  "compareBlocks a b = orderOrDefault (category a) - orderOrDefault (category b)"

definition categoryItems :: "(string \<Rightarrow> string \<Rightarrow> int) \<Rightarrow> NavigationItem list \<Rightarrow> Category \<Rightarrow> NavigationItem list" where
  "categoryItems lc navigationItems cat =
     js_sort (compareItems lc)
       (filter (\<lambda>item. n_categoryId item = c_id cat \<and> n_enabled item) navigationItems)"

definition groupByCategory ::
  "(string \<Rightarrow> string \<Rightarrow> int) \<Rightarrow> Category list \<Rightarrow> NavigationItem list \<Rightarrow> CategoryBlock list" where
  "groupByCategory lc categories navigationItems =
     js_sort compareBlocks
       (filter (\<lambda>block. length (items block) > 0)
          (map (\<lambda>cat. \<lparr> category = cat, items = categoryItems lc navigationItems cat \<rparr>)
             categories))"

text \<open>
  A comparison function usable for sorting: of two strings at least one does not sort after
  the other, and "does not sort after" is transitive. The language requires this of
  \<^verbatim>\<open>localeCompare\<close>.
\<close>

definition consistent_comparator :: "('a \<Rightarrow> 'a \<Rightarrow> int) \<Rightarrow> bool" where
  "consistent_comparator cmp \<longleftrightarrow>
     (\<forall>a b. 0 < cmp a b \<longrightarrow> cmp b a \<le> 0) \<and>
     (\<forall>a b c. cmp a b \<le> 0 \<longrightarrow> cmp b c \<le> 0 \<longrightarrow> cmp a c \<le> 0)"

text \<open>A concrete collation for examples: comparison by character codes, left to right.\<close>

fun codepointCompare :: "string \<Rightarrow> string \<Rightarrow> int" where
  "codepointCompare [] [] = 0"
| "codepointCompare [] (y # ys) = - 1"
| "codepointCompare (x # xs) [] = 1"
| "codepointCompare (x # xs) (y # ys) =
     (if (of_char x :: nat) < of_char y then - 1
      else if (of_char y :: nat) < of_char x then 1
      else codepointCompare xs ys)"

section \<open>The validation script: loaded values and library operations\<close>

text \<open>
  What \<^verbatim>\<open>yaml.load\<close> returns is cast, not checked, so the validators and \<^verbatim>\<open>main\<close> meet
  any value: \<^verbatim>\<open>undefined\<close> (an empty document), \<^verbatim>\<open>null\<close>, a boolean, a number, a string,
  an array or an object (its own keys, in document order, each with its value; none of the
  values is a function). Numbers are the integers. Two array or object values are never the
  same object: they come from different documents, or from different nodes of a document
  without aliases.
\<close>

datatype jsval =
    JUndefined
  | JNull
  | JBool bool
  | JNum int
  | JStr string
  | JArr "jsval list"
  | JObj "(string \<times> jsval) list"



definition quoted :: "string \<Rightarrow> string" where
  "quoted s = [CHR 0x27] @ s @ [CHR 0x27]"




text \<open>
  The equality of \<^verbatim>\<open>includes\<close> and of \<^verbatim>\<open>Set\<close> (SameValueZero): by value on undefined, null,
  booleans, numbers and strings; an array or an object equals only itself, which no other
  value met here is.
\<close>

fun primitive :: "jsval \<Rightarrow> bool" where
  "primitive (JArr xs) = False"
| "primitive (JObj kv) = False"
| "primitive v = True"

definition sameValueZero :: "jsval \<Rightarrow> jsval \<Rightarrow> bool" where
  "sameValueZero a b \<longleftrightarrow> primitive a \<and> a = b"

definition js_includes :: "jsval list \<Rightarrow> jsval \<Rightarrow> bool" where
  "js_includes xs v \<longleftrightarrow> list_ex (\<lambda>x. sameValueZero x v) xs"

text \<open>\<^verbatim>\<open>Array.prototype.indexOf\<close>: the first position of a value, \<open>-1\<close> when it is absent.\<close>

fun indexOf_from :: "'a list \<Rightarrow> 'a \<Rightarrow> nat \<Rightarrow> int" where
  "indexOf_from [] x i = - 1"
| "indexOf_from (y # ys) x i = (if y = x then int i else indexOf_from ys x (Suc i))"

definition indexOf :: "'a list \<Rightarrow> 'a \<Rightarrow> int" where
  "indexOf xs x = indexOf_from xs x 0"

text \<open>
  \<^verbatim>\<open>xs.filter((x, index) => xs.indexOf(x) !== index)\<close>, the expression every uniqueness
  check uses: the values at positions that are not the first position of their value.
\<close>

definition notFirstOccurrence :: "'a list \<Rightarrow> 'a list" where
  "notFirstOccurrence xs =
     map fst (filter (\<lambda>(x, index). indexOf xs x \<noteq> int index) (zip xs [0..<length xs]))"

text \<open>
  \<^verbatim>\<open>[...new Set(xs)]\<close>: a set keeps the first insertion of a value, in insertion order;
  \<open>same\<close> is the equality of the set.
\<close>

fun set_add_all :: "('a \<Rightarrow> 'a \<Rightarrow> bool) \<Rightarrow> 'a list \<Rightarrow> 'a list \<Rightarrow> 'a list" where
  "set_add_all same seen [] = seen"
| "set_add_all same seen (x # xs) =
     set_add_all same (if list_ex (\<lambda>y. same y x) seen then seen else seen @ [x]) xs"

definition spreadSet :: "string list \<Rightarrow> string list" where
  "spreadSet xs = set_add_all (=) [] xs"


text \<open>\<^verbatim>\<open>Array.prototype.join\<close> on strings.\<close>

fun join :: "string \<Rightarrow> string list \<Rightarrow> string" where
  "join sep [] = []"
| "join sep [x] = x"
| "join sep (x # y # ys) = x @ sep @ join sep (y # ys)"

text \<open>Decimal digits, as string conversion prints an array index.\<close>

fun string_of_nat :: "nat \<Rightarrow> string" where
  "string_of_nat n =
     (if n < 10 then [char_of (48 + n)]
      else string_of_nat (n div 10) @ [char_of (48 + n mod 10)])"

declare string_of_nat.simps [simp del]



section \<open>The validation script: the schemas\<close>

text \<open>
  A schema issue: the path to the offending value (array index, then key) and a message.
  The message texts are the schema library's own. Parsing gives the issues (\<open>Inl\<close>) or the
  typed data (\<open>Inr\<close>); it never throws.
\<close>

datatype PathSeg = Index nat | Key string

fun seg_string :: "PathSeg \<Rightarrow> string" where
  "seg_string (Index i) = string_of_nat i"
| "seg_string (Key k) = k"

record ZodIssue =
  issue_path :: "PathSeg list"
  issue_message :: string

type_synonym 'a parsed = "ZodIssue list + 'a"

definition issue :: "string \<Rightarrow> ZodIssue" where
  "issue msg = \<lparr> issue_path = [], issue_message = msg \<rparr>"

fun parsedType :: "jsval \<Rightarrow> string" where
  "parsedType JUndefined = ''undefined''"
| "parsedType JNull = ''null''"
| "parsedType (JBool b) = ''boolean''"
| "parsedType (JNum n) = ''number''"
| "parsedType (JStr s) = ''string''"
| "parsedType (JArr xs) = ''array''"
| "parsedType (JObj kv) = ''object''"

definition invalid_type :: "string \<Rightarrow> jsval \<Rightarrow> ZodIssue" where
  "invalid_type expected v =
     issue (if v = JUndefined then ''Required''
            else ''Expected '' @ expected @ '', received '' @ parsedType v)"

text \<open>
  The field schemas in use: \<^verbatim>\<open>z.string().min(1)\<close>, \<^verbatim>\<open>z.string().optional()\<close>,
  \<^verbatim>\<open>z.number().int().min(0).optional()\<close>, \<^verbatim>\<open>z.string().url()\<close>,
  \<^verbatim>\<open>z.boolean().default(true)\<close> and the enumeration of the environment kinds. Whether a
  string parses as a URL is decided by the host's URL parser, the parameter \<open>isUrl\<close>.
\<close>

definition z_string_min1 :: "jsval \<Rightarrow> string parsed" where
  "z_string_min1 v =
     (case v of
        JStr s \<Rightarrow>
          if length s < 1 then Inl [issue ''String must contain at least 1 character(s)'']
          else Inr s
      | _ \<Rightarrow> Inl [invalid_type ''string'' v])"

definition z_string_optional :: "jsval \<Rightarrow> string option parsed" where
  "z_string_optional v =
     (case v of
        JUndefined \<Rightarrow> Inr None
      | JStr s \<Rightarrow> Inr (Some s)
      | _ \<Rightarrow> Inl [invalid_type ''string'' v])"

definition z_number_int_min0_optional :: "jsval \<Rightarrow> int option parsed" where
  "z_number_int_min0_optional v =
     (case v of
        JUndefined \<Rightarrow> Inr None
      | JNum n \<Rightarrow>
          if n < 0 then Inl [issue ''Number must be greater than or equal to 0'']
          else Inr (Some n)
      | _ \<Rightarrow> Inl [invalid_type ''number'' v])"

definition z_string_url :: "(string \<Rightarrow> bool) \<Rightarrow> jsval \<Rightarrow> string parsed" where
  "z_string_url isUrl v =
     (case v of
        JStr s \<Rightarrow> if isUrl s then Inr s else Inl [issue ''Invalid url'']
      | _ \<Rightarrow> Inl [invalid_type ''string'' v])"

definition z_boolean_default_true :: "jsval \<Rightarrow> bool parsed" where
  "z_boolean_default_true v =
     (case v of
        JUndefined \<Rightarrow> Inr True
      | JBool b \<Rightarrow> Inr b
      | _ \<Rightarrow> Inl [invalid_type ''boolean'' v])"

definition envTypeValues :: string where
  "envTypeValues = join '' | '' (map quoted [''test'', ''staging'', ''prod''])"

definition EnvTypeSchema :: "jsval \<Rightarrow> EnvType parsed" where
  "EnvTypeSchema v =
     (case v of
        JStr s \<Rightarrow>
          if s = ''test'' then Inr Test
          else if s = ''staging'' then Inr Staging
          else if s = ''prod'' then Inr Prod
          else Inl [issue (''Invalid enum value. Expected '' @ envTypeValues @
                           '', received '' @ quoted s)]
      | _ \<Rightarrow> Inl [invalid_type envTypeValues v])"

text \<open>
  \<^verbatim>\<open>z.object({...})\<close>: the value must be an object; every key of the shape is parsed, in
  the order of declaration, from the value under the key (\<^verbatim>\<open>undefined\<close> when the key is
  missing); the issues of all keys are collected, each with the key in front of its path;
  keys outside the shape are dropped. \<open>both\<close> combines the parse so far with the parse of
  the next key.
\<close>

definition at :: "PathSeg \<Rightarrow> 'a parsed \<Rightarrow> 'a parsed" where
  "at seg r =
     (case r of
        Inl issues \<Rightarrow> Inl (map (\<lambda>err. err\<lparr> issue_path := seg # issue_path err \<rparr>) issues)
      | Inr x \<Rightarrow> Inr x)"

definition field :: "(string \<times> jsval) list \<Rightarrow> string \<Rightarrow> (jsval \<Rightarrow> 'a parsed) \<Rightarrow> 'a parsed" where
  "field kv key schema =
     at (Key key) (schema (case map_of kv key of None \<Rightarrow> JUndefined | Some v \<Rightarrow> v))"

fun both :: "('a \<Rightarrow> 'b) parsed \<Rightarrow> 'a parsed \<Rightarrow> 'b parsed" where
  "both (Inr f) (Inr x) = Inr (f x)"
| "both (Inl issues) (Inr x) = Inl issues"
| "both (Inr f) (Inl issues) = Inl issues"
| "both (Inl issues) (Inl others) = Inl (issues @ others)"

definition CategorySchema :: "jsval \<Rightarrow> Category parsed" where
  "CategorySchema v =
     (case v of
        JObj kv \<Rightarrow>
          both (both (both (both (both
            (Inr (\<lambda>i n d ic ord.
               \<lparr> c_id = i, c_name = n, c_description = d, c_icon = ic, c_order = ord \<rparr>))
            (field kv ''id'' z_string_min1))
            (field kv ''name'' z_string_min1))
            (field kv ''description'' z_string_optional))
            (field kv ''icon'' z_string_optional))
            (field kv ''order'' z_number_int_min0_optional)
      | _ \<Rightarrow> Inl [invalid_type ''object'' v])"

definition ProjectSchema :: "jsval \<Rightarrow> Project parsed" where
  "ProjectSchema v =
     (case v of
        JObj kv \<Rightarrow>
          both (both (both (both (both (both
            (Inr (\<lambda>i n d c ic ord.
               \<lparr> p_id = i, p_name = n, p_description = d, p_categoryId = c, p_icon = ic,
                 p_order = ord \<rparr>))
            (field kv ''id'' z_string_min1))
            (field kv ''name'' z_string_min1))
            (field kv ''description'' z_string_optional))
            (field kv ''categoryId'' z_string_min1))
            (field kv ''icon'' z_string_optional))
            (field kv ''order'' z_number_int_min0_optional)
      | _ \<Rightarrow> Inl [invalid_type ''object'' v])"

definition ProjectEnvSchema :: "(string \<Rightarrow> bool) \<Rightarrow> jsval \<Rightarrow> ProjectEnv parsed" where
  "ProjectEnvSchema isUrl v =
     (case v of
        JObj kv \<Rightarrow>
          both (both (both (both (both
            (Inr (\<lambda>i e u d en.
               \<lparr> e_projectId = i, e_env = e, e_url = u, e_description = d, e_enabled = en \<rparr>))
            (field kv ''projectId'' z_string_min1))
            (field kv ''env'' EnvTypeSchema))
            (field kv ''url'' (z_string_url isUrl)))
            (field kv ''description'' z_string_optional))
            (field kv ''enabled'' z_boolean_default_true)
      | _ \<Rightarrow> Inl [invalid_type ''object'' v])"


text \<open>
  \<^verbatim>\<open>Schema.array().safeParse(v)\<close>: the value must be an array; every element is parsed,
  the issues of element \<open>i\<close> get the index \<open>i\<close> in front of their path, and the parse
  succeeds with the parsed elements when no element has an issue.
\<close>

fun parseEach :: "(jsval \<Rightarrow> 'a parsed) \<Rightarrow> jsval list \<Rightarrow> nat \<Rightarrow> 'a list parsed" where
  "parseEach schema [] i = Inr []"
| "parseEach schema (x # xs) i =
     both (both (Inr (#)) (at (Index i) (schema x))) (parseEach schema xs (Suc i))"

definition safeParseArray :: "(jsval \<Rightarrow> 'a parsed) \<Rightarrow> jsval \<Rightarrow> 'a list parsed" where
  "safeParseArray schema v =
     (case v of
        JArr xs \<Rightarrow> parseEach schema xs 0
      | _ \<Rightarrow> Inl [invalid_type ''array'' v])"

text \<open>\<^verbatim>\<open>`${err.path.join('.')} - ${err.message}`\<close>\<close>

definition issueText :: "ZodIssue \<Rightarrow> string" where
  "issueText err = join ''.'' (map seg_string (issue_path err)) @ '' - '' @ issue_message err"


section \<open>The validation script: the validators\<close>

record ValidationResult =
  valid :: bool
  errors :: "string list"

text \<open>
  Each validator wraps its body in \<^verbatim>\<open>try\<close>/\<^verbatim>\<open>catch\<close>; nothing in the body throws (the
  parse is \<^verbatim>\<open>safeParse\<close>, the rest works on parsed data), so the handler has no branch
  here. A failed schema check returns at once with the schema errors only.
\<close>

definition validateCategories :: "jsval \<Rightarrow> ValidationResult" where
  "validateCategories categories =
     (case safeParseArray CategorySchema categories of
        Inl issues \<Rightarrow>
          \<lparr> valid = False,
            errors = map (\<lambda>err. ''Category validation error: '' @ issueText err) issues \<rparr>
      | Inr data \<Rightarrow>
          let ids = map c_id data;
              duplicateIds = notFirstOccurrence ids;
              errs = (if length duplicateIds > 0
                      then [''Duplicate category IDs: '' @ join '', '' duplicateIds] else [])
          in \<lparr> valid = (length errs = 0), errors = errs \<rparr>)"

definition validateProjects :: "jsval \<Rightarrow> ValidationResult" where
  "validateProjects projects =
     (case safeParseArray ProjectSchema projects of
        Inl issues \<Rightarrow>
          \<lparr> valid = False,
            errors = map (\<lambda>err. ''Project validation error: '' @ issueText err) issues \<rparr>
      | Inr data \<Rightarrow>
          let ids = map p_id data;
              duplicateIds = notFirstOccurrence ids;
              errs = (if length duplicateIds > 0
                      then [''Duplicate project IDs: '' @ join '', '' duplicateIds] else []);
              names = map p_name data;
              duplicateNames = notFirstOccurrence names;
              errs = (if length duplicateNames > 0
                      then errs @ [''Duplicate project names: '' @ join '', '' duplicateNames]
                      else errs)
          in \<lparr> valid = (length errs = 0), errors = errs \<rparr>)"

text \<open>
  The parameter \<open>categoryIds\<close> is received and not used, as in the script. The id lists are
  what the caller read from the loaded values, so they hold any values.
\<close>

definition validateProjectEnvs ::
  "(string \<Rightarrow> bool) \<Rightarrow> jsval \<Rightarrow> jsval list \<Rightarrow> jsval list \<Rightarrow> ValidationResult" where
  "validateProjectEnvs isUrl envs categoryIds projectIds =
     (case safeParseArray (ProjectEnvSchema isUrl) envs of
        Inl issues \<Rightarrow>
          \<lparr> valid = False,
            errors = map (\<lambda>err. ''ProjectEnv validation error: '' @ issueText err) issues \<rparr>
      | Inr data \<Rightarrow>
          let invalidProjectIds =
                filter (\<lambda>i. \<not> js_includes projectIds (JStr i)) (map e_projectId data);
              errs = (if length invalidProjectIds > 0
                      then [''ProjectEnv references non-existent projectIds: '' @
                              join '', '' (spreadSet invalidProjectIds)]
                      else []);
              combinations = map (\<lambda>e. e_projectId e @ ''-'' @ env_string (e_env e)) data;
              duplicateCombinations = notFirstOccurrence combinations;
              errs = (if length duplicateCombinations > 0
                      then errs @ [''Duplicate projectId-env combinations: '' @
                                     join '', '' (spreadSet duplicateCombinations)]
                      else errs)
          in \<lparr> valid = (length errs = 0), errors = errs \<rparr>)"



section \<open>The validation script: the entry point\<close>









section \<open>Example data\<close>

definition exCategory :: "string \<Rightarrow> string \<Rightarrow> int option \<Rightarrow> Category" where
  "exCategory i n ord =
     \<lparr> c_id = i, c_name = n, c_description = None, c_icon = None, c_order = ord \<rparr>"

definition exProject :: "string \<Rightarrow> string \<Rightarrow> string \<Rightarrow> Project" where
  "exProject i n c =
     \<lparr> p_id = i, p_name = n, p_description = None, p_categoryId = c, p_icon = None,
       p_order = None \<rparr>"

definition exEnv :: "string \<Rightarrow> EnvType \<Rightarrow> string \<Rightarrow> bool \<Rightarrow> ProjectEnv" where
  "exEnv i e u en =
     \<lparr> e_projectId = i, e_env = e, e_url = u, e_description = None, e_enabled = en \<rparr>"


text \<open>Loaded records, as the YAML parser gives them: objects with the keys that were written.\<close>

definition rawCategory :: "string \<Rightarrow> string \<Rightarrow> jsval" where
  "rawCategory i n = JObj [(''id'', JStr i), (''name'', JStr n)]"

definition rawProject :: "string \<Rightarrow> string \<Rightarrow> string \<Rightarrow> jsval" where
  "rawProject i n c = JObj [(''id'', JStr i), (''name'', JStr n), (''categoryId'', JStr c)]"



definition rawEnv :: "string \<Rightarrow> string \<Rightarrow> string \<Rightarrow> jsval" where
  "rawEnv i e u = JObj [(''projectId'', JStr i), (''env'', JStr e), (''url'', JStr u)]"


text \<open>A stand-in for the URL parser in examples: it accepts the strings that start with a scheme.\<close>

definition exUrlParser :: "string \<Rightarrow> bool" where
  "exUrlParser s \<longleftrightarrow> prefix ''https://'' s \<or> prefix ''http://'' s"








text \<open>A small site: four categories (one without projects), four projects, six env records.\<close>

definition exCategories :: "Category list" where
  "exCategories =
     [exCategory ''misc'' ''Misc'' None, exCategory ''infra'' ''Infra'' (Some 1),
      exCategory ''ops'' ''Ops'' (Some 999), exCategory ''empty'' ''Empty'' (Some 0)]"

definition exProjects :: "Project list" where
  "exProjects =
     [exProject ''svc'' ''Service'' ''infra'', exProject ''api'' ''Api'' ''infra'',
      exProject ''doc'' ''Docs'' ''misc'', exProject ''run'' ''Runbook'' ''ops'']"

definition exEnvs :: "ProjectEnv list" where
  "exEnvs =
     [exEnv ''svc'' Test ''https://test.example.com'' True,
      exEnv ''svc'' Prod ''https://prod.example.com'' True,
      exEnv ''api'' Prod ''https://api.example.com'' True,
      exEnv ''api'' Staging ''https://api.staging.example.com'' False,
      exEnv ''doc'' Prod ''https://doc.example.com'' True,
      exEnv ''run'' Prod ''https://run.example.com'' True]"

definition exBlocks :: "CategoryBlock list" where
  "exBlocks = groupByCategory codepointCompare exCategories (expandNavigationItems exProjects exEnvs)"

definition exLateCategories :: "Category list" where
  "exLateCategories = [exCategory ''late'' ''Late'' (Some 1000), exCategory ''plain'' ''Plain'' None]"

definition exLateItems :: "NavigationItem list" where
  "exLateItems =
     expandNavigationItems [exProject ''a'' ''A'' ''late'', exProject ''b'' ''B'' ''plain'']
       [exEnv ''a'' Prod ''https://a.example.com'' True, exEnv ''b'' Prod ''https://b.example.com'' True]"

section \<open>Expansion: what the loops compute\<close>

lemma getEnvOrder_orderMap: "map_of orderMap (env_string e) = Some (getEnvOrder e)"
  by (cases e) (simp_all add: orderMap_def)

lemma orderMap_upper_case:
  "map_of orderMap ''PROD'' = None \<and> map_of orderMap ''PRE'' = None \<and> map_of orderMap ''TEST'' = None"
  by (simp add: orderMap_def)

lemma push_envs_append: "push_envs p es acc = acc @ map (navItem p) es"
  by (induction es arbitrary: acc) simp_all

lemma expand_loop_concat:
  "expand_loop ps es acc =
     acc @ concat (map (\<lambda>p. map (navItem p) (filter (\<lambda>e. e_projectId e = p_id p) es)) ps)"
  by (induction ps arbitrary: acc) (simp_all add: push_envs_append)

lemma expand_concat:
  "expandNavigationItems ps es =
     concat (map (\<lambda>p. map (navItem p) (filter (\<lambda>e. e_projectId e = p_id p) es)) ps)"
  by (simp add: expandNavigationItems_def expand_loop_concat)

lemma length_expand:
  "length (expandNavigationItems ps es) =
     (\<Sum>p\<leftarrow>ps. length (filter (\<lambda>e. e_projectId e = p_id p) es))"
  by (simp add: expand_concat length_concat comp_def)

lemma sum_list_match_count:
  "(\<Sum>p\<leftarrow>ps. length (filter (\<lambda>e. e_projectId e = p_id p) es)) =
   (\<Sum>e\<leftarrow>es. length (filter (\<lambda>p. p_id p = e_projectId e) ps))"
proof (induction es)
  case Nil
  then show ?case by simp
next
  case (Cons e es)
  have "(\<Sum>p\<leftarrow>ps. length (filter (\<lambda>e. e_projectId e = p_id p) (e # es))) =
        (\<Sum>p\<leftarrow>ps. (if e_projectId e = p_id p then 1 else 0) + length (filter (\<lambda>e. e_projectId e = p_id p) es))"
    by (intro arg_cong[where f=sum_list] map_cong) auto
  also have "\<dots> = (\<Sum>p\<leftarrow>ps. (if e_projectId e = p_id p then 1 else 0)) + (\<Sum>p\<leftarrow>ps. length (filter (\<lambda>e. e_projectId e = p_id p) es))"
    by (simp add: sum_list_addf)
  also have "(\<Sum>p\<leftarrow>ps. (if e_projectId e = p_id p then 1 else 0)) = length (filter (\<lambda>p. p_id p = e_projectId e) ps)"
    by (induction ps) auto
  finally show ?case using Cons.IH by simp
qed

lemma distinct_map_filter_one:
  "distinct (map f xs) \<Longrightarrow> k \<in> f ` set xs \<Longrightarrow> length (filter (\<lambda>x. f x = k) xs) = 1"
proof (induction xs)
  case Nil
  then show ?case by simp
next
  case (Cons x xs)
  show ?case
  proof (cases "f x = k")
    case True
    from Cons.prems have "f x \<notin> f ` set xs" by simp
    with True have "\<forall>y\<in>set xs. f y \<noteq> k" by blast
    then have "filter (\<lambda>y. f y = k) xs = []"
      by (simp add: filter_empty_conv)
    with True show ?thesis by simp
  next
    case False
    with Cons show ?thesis by auto
  qed
qed

lemma length_expand_all_matched:
  assumes "distinct (map p_id ps)" and "\<forall>e\<in>set es. e_projectId e \<in> p_id ` set ps"
  shows "length (expandNavigationItems ps es) = length es"
proof -
  have "(\<Sum>e\<leftarrow>es. length (filter (\<lambda>p. p_id p = e_projectId e) ps)) = (\<Sum>e\<leftarrow>es. 1)"
    using assms by (intro arg_cong[where f=sum_list] map_cong refl) (simp add: distinct_map_filter_one)
  then show ?thesis
    by (simp add: length_expand sum_list_match_count sum_list_triv)
qed

section \<open>Expansion: the combined id\<close>

lemma last_env_suffix:
  "last (p @ ''-'' @ env_string e) = (case e of Test \<Rightarrow> CHR ''t'' | Staging \<Rightarrow> CHR ''g'' | Prod \<Rightarrow> CHR ''d'')"
  by (cases e) simp_all

lemma combo_inject:
  assumes "p @ ''-'' @ env_string e = q @ ''-'' @ env_string f"
  shows "p = q \<and> e = f"
proof -
  have "last (p @ ''-'' @ env_string e) = last (q @ ''-'' @ env_string f)"
    using assms by simp
  then have ef: "e = f"
    unfolding last_env_suffix by (cases e; cases f) simp_all
  with assms show ?thesis by simp
qed

lemma n_id_navItem: "n_id (navItem p e) = n_projectId (navItem p e) @ ''-'' @ env_string (n_env (navItem p e))"
  by (simp add: navItem_def)

lemma set_expand:
  "set (expandNavigationItems ps es) =
     {navItem p e | p e. p \<in> set ps \<and> e \<in> set es \<and> e_projectId e = p_id p}"
  by (auto simp: expand_concat)

lemma ids_of_project:
  "map (\<lambda>e. n_id (navItem p e)) (filter (\<lambda>e. e_projectId e = p_id p) es) =
   map (\<lambda>(q, v). q @ ''-'' @ env_string v)
     (filter (\<lambda>k. fst k = p_id p) (map (\<lambda>e. (e_projectId e, e_env e)) es))"
  by (induction es) (auto simp: navItem_def)

lemma map_n_id_expand:
  "map n_id (expandNavigationItems ps es) =
     map (\<lambda>(q, v). q @ ''-'' @ env_string v)
       (concat (map (\<lambda>p. filter (\<lambda>k. fst k = p_id p) (map (\<lambda>e. (e_projectId e, e_env e)) es)) ps))"
proof -
  have "map n_id (expandNavigationItems ps es) =
        concat (map (\<lambda>p. map (\<lambda>e. n_id (navItem p e)) (filter (\<lambda>e. e_projectId e = p_id p) es)) ps)"
    by (simp add: expand_concat map_concat comp_def)
  also have "\<dots> = concat (map (\<lambda>p. map (\<lambda>(q, v). q @ ''-'' @ env_string v)
       (filter (\<lambda>k. fst k = p_id p) (map (\<lambda>e. (e_projectId e, e_env e)) es))) ps)"
    by (simp only: ids_of_project)
  also have "\<dots> = map (\<lambda>(q, v). q @ ''-'' @ env_string v)
       (concat (map (\<lambda>p. filter (\<lambda>k. fst k = p_id p) (map (\<lambda>e. (e_projectId e, e_env e)) es)) ps))"
    by (simp add: map_concat comp_def)
  finally show ?thesis .
qed

lemma combo_inj_on: "inj_on (\<lambda>(q, v). q @ ''-'' @ env_string v) A"
proof (rule inj_onI)
  fix x y :: "string \<times> EnvType"
  assume "(case x of (q, v) \<Rightarrow> q @ ''-'' @ env_string v) = (case y of (q, v) \<Rightarrow> q @ ''-'' @ env_string v)"
  then have "fst x @ ''-'' @ env_string (snd x) = fst y @ ''-'' @ env_string (snd y)"
    by (simp add: case_prod_beta)
  then have "fst x = fst y \<and> snd x = snd y" by (rule combo_inject)
  then show "x = y" by (simp add: prod_eq_iff)
qed

lemma distinct_concat_filter_fst:
  "distinct ks \<Longrightarrow> distinct (map f ps) \<Longrightarrow>
   distinct (concat (map (\<lambda>p. filter (\<lambda>k. fst k = f p) ks) ps))"
  by (induction ps) auto

lemma distinct_ids_expand:
  assumes "distinct (map p_id ps)" and "distinct (map (\<lambda>e. (e_projectId e, e_env e)) es)"
  shows "distinct (map n_id (expandNavigationItems ps es))"
  unfolding map_n_id_expand
  by (intro distinct_map[THEN iffD2] conjI distinct_concat_filter_fst assms combo_inj_on)


section \<open>Sorting with a comparison function\<close>

lemma js_sort_Nil: "js_sort cmp [] = []"
  by (simp add: js_sort_def)

lemma js_sort_Cons: "js_sort cmp (x # xs) = insert_by cmp x (js_sort cmp xs)"
  by (simp add: js_sort_def)

lemma mset_insert_by: "mset (insert_by cmp x ys) = add_mset x (mset ys)"
  by (induction ys) simp_all

lemma mset_js_sort: "mset (js_sort cmp xs) = mset xs"
  by (induction xs) (simp_all add: js_sort_Nil js_sort_Cons mset_insert_by)

lemma set_js_sort: "set (js_sort cmp xs) = set xs"
  using mset_js_sort[of cmp xs] by (metis set_mset_mset)

lemma length_js_sort: "length (js_sort cmp xs) = length xs"
  using mset_js_sort[of cmp xs] by (metis size_mset)

lemma filter_length_js_sort: "length (filter P (js_sort cmp xs)) = length (filter P xs)"
proof -
  have "mset (filter P (js_sort cmp xs)) = mset (filter P xs)"
    by (simp add: mset_js_sort)
  then show ?thesis by (metis size_mset)
qed

lemma set_insert_by: "set (insert_by cmp x ys) = insert x (set ys)"
  by (induction ys) auto

lemma sorted_insert_by:
  assumes con: "consistent_comparator cmp"
    and srt: "sorted_wrt (\<lambda>a b. cmp a b \<le> 0) ys"
  shows "sorted_wrt (\<lambda>a b. cmp a b \<le> 0) (insert_by cmp x ys)"
proof -
  from con have tot: "\<And>a b. 0 < cmp a b \<Longrightarrow> cmp b a \<le> 0"
    and tr: "\<And>a b c. cmp a b \<le> 0 \<Longrightarrow> cmp b c \<le> 0 \<Longrightarrow> cmp a c \<le> 0"
    unfolding consistent_comparator_def by blast+
  from srt show ?thesis
  proof (induction ys)
  case Nil
  then show ?case by simp
next
  case (Cons y ys)
  show ?case
  proof (cases "cmp x y \<le> 0")
    case True
    have "cmp x z \<le> 0" if "z \<in> set ys" for z
    proof -
      from Cons.prems that have "cmp y z \<le> 0" by simp
      with True show ?thesis by (rule tr)
    qed
    with True Cons.prems show ?thesis by simp
  next
    case False
    then have "cmp y x \<le> 0" using tot[of x y] by simp
    moreover from Cons have "sorted_wrt (\<lambda>a b. cmp a b \<le> 0) (insert_by cmp x ys)" by simp
    moreover from Cons.prems have "\<forall>z\<in>set ys. cmp y z \<le> 0" by simp
    ultimately show ?thesis using False by (simp add: set_insert_by)
  qed
  qed
qed

lemma sorted_js_sort:
  "consistent_comparator cmp \<Longrightarrow> sorted_wrt (\<lambda>a b. cmp a b \<le> 0) (js_sort cmp xs)"
proof (induction xs)
  case Nil
  then show ?case by (simp add: js_sort_Nil)
next
  case (Cons x xs)
  from Cons have "sorted_wrt (\<lambda>a b. cmp a b \<le> 0) (js_sort cmp xs)" by simp
  with Cons.prems show ?case
    unfolding js_sort_Cons by (rule sorted_insert_by)
qed

lemma stable_insert_by:
  assumes "\<And>a b. cmp a b \<le> 0 \<longleftrightarrow> key a \<le> (key b :: int)"
  shows "filter (\<lambda>y. key y = k) (insert_by cmp x ys) =
         (if key x = k then x # filter (\<lambda>y. key y = k) ys else filter (\<lambda>y. key y = k) ys)"
  by (induction ys) (auto simp: assms)

lemma stable_js_sort:
  assumes "\<And>a b. cmp a b \<le> 0 \<longleftrightarrow> key a \<le> (key b :: int)"
  shows "filter (\<lambda>y. key y = k) (js_sort cmp xs) = filter (\<lambda>y. key y = k) xs"
  by (induction xs) (simp_all add: js_sort_Nil js_sort_Cons stable_insert_by[of cmp key, OF assms])

lemma compareItems_le0:
  "compareItems lc a b \<le> 0 \<longleftrightarrow>
     n_order a < n_order b \<or> (n_order a = n_order b \<and> lc (n_projectName a) (n_projectName b) \<le> 0)"
  by (auto simp: compareItems_def)

lemma consistent_compareItems:
  assumes "consistent_comparator lc"
  shows "consistent_comparator (compareItems lc)"
proof -
  from assms have tot: "\<And>a b. 0 < lc a b \<Longrightarrow> lc b a \<le> 0"
    and tr: "\<And>a b c. lc a b \<le> 0 \<Longrightarrow> lc b c \<le> 0 \<Longrightarrow> lc a c \<le> 0"
    unfolding consistent_comparator_def by blast+
  have "compareItems lc b a \<le> 0" if "0 < compareItems lc a b" for a b
  proof (cases "n_order a = n_order b")
    case True
    with that have "0 < lc (n_projectName a) (n_projectName b)" by (simp add: compareItems_def)
    then have "lc (n_projectName b) (n_projectName a) \<le> 0" by (rule tot)
    with True show ?thesis by (simp add: compareItems_def)
  next
    case False
    with that show ?thesis by (simp add: compareItems_def)
  qed
  moreover have "compareItems lc a c \<le> 0"
    if ab: "compareItems lc a b \<le> 0" and bc: "compareItems lc b c \<le> 0" for a b c
  proof -
    from ab bc consider "n_order a < n_order c"
      | "n_order a = n_order b" "n_order b = n_order c"
        "lc (n_projectName a) (n_projectName b) \<le> 0" "lc (n_projectName b) (n_projectName c) \<le> 0"
      unfolding compareItems_le0 by linarith
    then show ?thesis
    proof cases
      case 1
      then show ?thesis by (simp add: compareItems_le0)
    next
      case 2
      from 2(3,4) have "lc (n_projectName a) (n_projectName c) \<le> 0" by (rule tr)
      with 2(1,2) show ?thesis by (simp add: compareItems_le0)
    qed
  qed
  ultimately show ?thesis unfolding consistent_comparator_def by blast
qed

lemma compareBlocks_le0:
  "compareBlocks a b \<le> 0 \<longleftrightarrow> orderOrDefault (category a) \<le> orderOrDefault (category b)"
  by (simp add: compareBlocks_def)

lemma consistent_compareBlocks: "consistent_comparator compareBlocks"
  by (auto simp: consistent_comparator_def compareBlocks_def)

lemma codepointCompare_total: "0 < codepointCompare a b \<Longrightarrow> codepointCompare b a \<le> 0"
proof (induction a b rule: codepointCompare.induct)
  case (4 x xs y ys)
  show ?case
  proof (cases "(of_char x :: nat) = of_char y")
    case True
    with 4 show ?thesis by simp
  next
    case False
    with 4 show ?thesis by (simp split: if_splits)
  qed
qed simp_all

lemma codepointCompare_trans:
  "codepointCompare a b \<le> 0 \<Longrightarrow> codepointCompare b c \<le> 0 \<Longrightarrow> codepointCompare a c \<le> 0"
proof (induction a b arbitrary: c rule: codepointCompare.induct)
  case 1
  then show ?case by simp
next
  case (2 y ys)
  then show ?case by (cases c) simp_all
next
  case (3 x xs)
  then show ?case by simp
next
  case (4 x xs y ys)
  show ?case
  proof (cases c)
    case Nil
    with 4 show ?thesis by simp
  next
    case (Cons z zs)
    define i j k where "i = (of_char x :: nat)" and "j = (of_char y :: nat)" and "k = (of_char z :: nat)"
    from 4(2) have ij: "i \<le> j" unfolding i_def j_def by (simp split: if_splits)
    from 4(3) Cons have jk: "j \<le> k" unfolding j_def k_def by (simp split: if_splits)
    show ?thesis
    proof (cases "i = k")
      case True
      with ij jk have eq: "i = j" "j = k" by simp_all
      from 4(2) eq have 1: "codepointCompare xs ys \<le> 0" unfolding i_def j_def by simp
      from 4(3) Cons eq have 2: "codepointCompare ys zs \<le> 0" unfolding j_def k_def by simp
      from eq have "\<not> i < j" "\<not> j < i" by simp_all
      then have "codepointCompare xs zs \<le> 0"
        using 4(1)[OF _ _ 1 2] unfolding i_def j_def by simp
      with True Cons show ?thesis unfolding i_def k_def by simp
    next
      case False
      with ij jk have "i < k" by simp
      with Cons show ?thesis unfolding i_def k_def by simp
    qed
  qed
qed

lemma consistent_codepointCompare: "consistent_comparator codepointCompare"
  unfolding consistent_comparator_def
  by (blast intro: codepointCompare_total codepointCompare_trans)

section \<open>Properties of the expansion\<close>

text \<open>
  Claim C4, as stated, fails when two projects share an id: the single env record matches
  a project, and the expansion has two items for it.
\<close>

theorem expand_duplicate_project_doubles:
  "set (map e_projectId [exEnv ''svc'' Prod ''https://p'' True])
     \<subseteq> set (map p_id [exProject ''svc'' ''A'' ''infra'', exProject ''svc'' ''B'' ''infra''])
   \<and> length [exEnv ''svc'' Prod ''https://p'' True] = 1
   \<and> length (expandNavigationItems
        [exProject ''svc'' ''A'' ''infra'', exProject ''svc'' ''B'' ''infra'']
        [exEnv ''svc'' Prod ''https://p'' True]) = 2"
  by (simp add: expandNavigationItems_def exEnv_def exProject_def)

text \<open>
  Claim C4, amended: when the project ids are pairwise distinct and every env record's
  \<open>projectId\<close> is the id of some project, the expansion has exactly as many items as there
  are env records. In every case it is the items of the (project, matching env) pairs,
  project by project, and a project without a matching env record contributes none.
\<close>

theorem expand_cardinality:
  "(distinct (map p_id ps) \<and> (\<forall>e\<in>set es. e_projectId e \<in> p_id ` set ps) \<longrightarrow>
      length (expandNavigationItems ps es) = length es)
   \<and> expandNavigationItems ps es =
        concat (map (\<lambda>p. map (navItem p) (filter (\<lambda>e. e_projectId e = p_id p) es)) ps)
   \<and> (\<forall>p\<in>set ps. (\<forall>e\<in>set es. e_projectId e \<noteq> p_id p) \<longrightarrow>
          (\<forall>it\<in>set (expandNavigationItems ps es). n_projectId it \<noteq> p_id p))"
proof (intro conjI impI)
  assume "distinct (map p_id ps) \<and> (\<forall>e\<in>set es. e_projectId e \<in> p_id ` set ps)"
  then show "length (expandNavigationItems ps es) = length es"
    by (simp add: length_expand_all_matched)
next
  show "expandNavigationItems ps es =
        concat (map (\<lambda>p. map (navItem p) (filter (\<lambda>e. e_projectId e = p_id p) es)) ps)"
    by (rule expand_concat)
next
  show "\<forall>p\<in>set ps. (\<forall>e\<in>set es. e_projectId e \<noteq> p_id p) \<longrightarrow>
          (\<forall>it\<in>set (expandNavigationItems ps es). n_projectId it \<noteq> p_id p)"
    by (auto simp: set_expand navItem_def)
qed

text \<open>
  Claim C4, amended, on the two-env example with a second project that has no env record.
\<close>

theorem expand_cardinality_witness:
  "distinct (map p_id [exProject ''svc'' ''Service'' ''infra'', exProject ''idle'' ''Idle'' ''infra''])
   \<and> set (map e_projectId [exEnv ''svc'' Prod ''https://prod.example.com'' True,
                            exEnv ''svc'' Test ''https://test.example.com'' True])
       \<subseteq> set (map p_id [exProject ''svc'' ''Service'' ''infra'', exProject ''idle'' ''Idle'' ''infra''])
   \<and> length (expandNavigationItems
        [exProject ''svc'' ''Service'' ''infra'', exProject ''idle'' ''Idle'' ''infra'']
        [exEnv ''svc'' Prod ''https://prod.example.com'' True,
         exEnv ''svc'' Test ''https://test.example.com'' True]) = 2
   \<and> map n_projectId (expandNavigationItems
        [exProject ''svc'' ''Service'' ''infra'', exProject ''idle'' ''Idle'' ''infra'']
        [exEnv ''svc'' Prod ''https://prod.example.com'' True,
         exEnv ''svc'' Test ''https://test.example.com'' True]) = [''svc'', ''svc'']"
proof -
  let ?ps = "[exProject ''svc'' ''Service'' ''infra'', exProject ''idle'' ''Idle'' ''infra'']"
  let ?es = "[exEnv ''svc'' Prod ''https://prod.example.com'' True,
              exEnv ''svc'' Test ''https://test.example.com'' True]"
  have d: "distinct (map p_id ?ps)" by (simp add: exProject_def)
  have m: "\<forall>e\<in>set ?es. e_projectId e \<in> p_id ` set ?ps" by (simp add: exProject_def exEnv_def)
  have v: "map n_projectId (expandNavigationItems ?ps ?es) = [''svc'', ''svc'']"
    by (simp add: expandNavigationItems_def exEnv_def exProject_def navItem_def)
  from expand_cardinality[of ?ps ?es] d m
  have "length (expandNavigationItems ?ps ?es) = length ?es"
    by blast
  with d v show ?thesis by (simp add: exProject_def exEnv_def)
qed

text \<open>
  Claim C5, as stated, fails when two projects share an id: the (projectId, env) pairs of
  the env records are pairwise distinct and the id \<open>svc-prod\<close> occurs twice.
\<close>

theorem expand_duplicate_project_repeats_id:
  "distinct (map (\<lambda>e. (e_projectId e, e_env e)) [exEnv ''svc'' Prod ''https://p'' True])
   \<and> map n_id (expandNavigationItems
        [exProject ''svc'' ''A'' ''infra'', exProject ''svc'' ''B'' ''infra'']
        [exEnv ''svc'' Prod ''https://p'' True]) = [''svc-prod'', ''svc-prod'']
   \<and> \<not> distinct (map n_id (expandNavigationItems
        [exProject ''svc'' ''A'' ''infra'', exProject ''svc'' ''B'' ''infra'']
        [exEnv ''svc'' Prod ''https://p'' True]))"
  by (simp add: expandNavigationItems_def exEnv_def exProject_def navItem_def)

text \<open>
  Claim C5, amended: every item of the expansion comes from a project and one of its env
  records, and its id is the project's id, a hyphen and the env value; when the project ids
  are pairwise distinct and the (projectId, env) pairs of the env records are pairwise
  distinct, the ids of the expansion are pairwise distinct.
\<close>

theorem expand_ids:
  "(\<forall>it\<in>set (expandNavigationItems ps es).
      \<exists>p\<in>set ps. \<exists>e\<in>set es. e_projectId e = p_id p \<and> it = navItem p e
        \<and> n_id it = p_id p @ ''-'' @ env_string (e_env e))
   \<and> (distinct (map p_id ps) \<longrightarrow> distinct (map (\<lambda>e. (e_projectId e, e_env e)) es) \<longrightarrow>
        distinct (map n_id (expandNavigationItems ps es)))"
proof (intro conjI impI)
  show "\<forall>it\<in>set (expandNavigationItems ps es).
      \<exists>p\<in>set ps. \<exists>e\<in>set es. e_projectId e = p_id p \<and> it = navItem p e
        \<and> n_id it = p_id p @ ''-'' @ env_string (e_env e)"
  proof
    fix it
    assume "it \<in> set (expandNavigationItems ps es)"
    then obtain p e where pe: "p \<in> set ps" "e \<in> set es" "e_projectId e = p_id p" "it = navItem p e"
      unfolding set_expand by blast
    moreover have "n_id (navItem p e) = p_id p @ ''-'' @ env_string (e_env e)"
      by (simp add: navItem_def)
    ultimately show "\<exists>p\<in>set ps. \<exists>e\<in>set es. e_projectId e = p_id p \<and> it = navItem p e
        \<and> n_id it = p_id p @ ''-'' @ env_string (e_env e)"
      by blast
  qed
next
  assume "distinct (map p_id ps)" and "distinct (map (\<lambda>e. (e_projectId e, e_env e)) es)"
  then show "distinct (map n_id (expandNavigationItems ps es))"
    by (rule distinct_ids_expand)
qed

text \<open>
  Claim C5, amended, on the two-env example: the ids are \<open>svc-prod\<close> and \<open>svc-test\<close>.
\<close>

theorem expand_ids_witness:
  "distinct (map p_id [exProject ''svc'' ''Service'' ''infra''])
   \<and> distinct (map (\<lambda>e. (e_projectId e, e_env e))
        [exEnv ''svc'' Prod ''https://prod.example.com'' True,
         exEnv ''svc'' Test ''https://test.example.com'' True])
   \<and> map n_id (expandNavigationItems [exProject ''svc'' ''Service'' ''infra'']
        [exEnv ''svc'' Prod ''https://prod.example.com'' True,
         exEnv ''svc'' Test ''https://test.example.com'' True]) = [''svc-prod'', ''svc-test'']
   \<and> distinct (map n_id (expandNavigationItems [exProject ''svc'' ''Service'' ''infra'']
        [exEnv ''svc'' Prod ''https://prod.example.com'' True,
         exEnv ''svc'' Test ''https://test.example.com'' True]))"
proof -
  let ?ps = "[exProject ''svc'' ''Service'' ''infra'']"
  let ?es = "[exEnv ''svc'' Prod ''https://prod.example.com'' True,
              exEnv ''svc'' Test ''https://test.example.com'' True]"
  have d: "distinct (map p_id ?ps)" by simp
  have k: "distinct (map (\<lambda>e. (e_projectId e, e_env e)) ?es)" by (simp add: exEnv_def)
  have v: "map n_id (expandNavigationItems ?ps ?es) = [''svc-prod'', ''svc-test'']"
    by (simp add: expandNavigationItems_def exEnv_def exProject_def navItem_def)
  from expand_ids[of ?ps ?es] d k have "distinct (map n_id (expandNavigationItems ?ps ?es))"
    by blast
  with d k v show ?thesis by blast
qed



section \<open>Properties of the aggregation\<close>

lemma set_categoryItems:
  "set (categoryItems lc navs c) = {it \<in> set navs. n_categoryId it = c_id c \<and> n_enabled it}"
  by (auto simp: categoryItems_def set_js_sort)

lemma set_groupByCategory:
  "set (groupByCategory lc cats navs) =
     {\<lparr> category = c, items = categoryItems lc navs c \<rparr> | c. c \<in> set cats \<and> categoryItems lc navs c \<noteq> []}"
  by (auto simp: groupByCategory_def set_js_sort)

lemma categories_groupByCategory:
  "map category (groupByCategory lc cats navs) =
     js_sort (\<lambda>a b. orderOrDefault a - orderOrDefault b)
       (filter (\<lambda>c. categoryItems lc navs c \<noteq> []) cats)"
proof -
  have ins: "map category (insert_by compareBlocks b bs) =
      insert_by (\<lambda>a b. orderOrDefault a - orderOrDefault b) (category b) (map category bs)" for b bs
    by (induction bs) (simp_all add: compareBlocks_def)
  have srt: "map category (js_sort compareBlocks bs) =
      js_sort (\<lambda>a b. orderOrDefault a - orderOrDefault b) (map category bs)" for bs
    by (induction bs) (simp_all add: js_sort_Nil js_sort_Cons ins)
  show ?thesis
    by (simp add: groupByCategory_def srt filter_map comp_def)
qed

lemma sorted_js_sort_key:
  "sorted (map key (js_sort (\<lambda>a b. key a - key b) xs))" for key :: "'a \<Rightarrow> int"
proof -
  have "consistent_comparator (\<lambda>a b. key a - key b)"
    by (auto simp: consistent_comparator_def)
  then have "sorted_wrt (\<lambda>a b. key a - key b \<le> 0) (js_sort (\<lambda>a b. key a - key b) xs)"
    by (rule sorted_js_sort)
  then show ?thesis
    by (simp add: sorted_map sorted_wrt_iff_nth_less)
qed

text \<open>
  Claim C7: in every block of the aggregation no earlier item has a greater \<open>order\<close> than
  a later one, and of two items with the same \<open>order\<close> the earlier one does not sort after
  the later one by project name under the collation, for every collation that is a
  consistent comparison function.
\<close>

theorem items_sorted:
  assumes "consistent_comparator lc"
  shows "\<forall>b\<in>set (groupByCategory lc cats navs). \<forall>i j. i < j \<and> j < length (items b) \<longrightarrow>
           n_order (items b ! i) \<le> n_order (items b ! j)
           \<and> (n_order (items b ! i) = n_order (items b ! j) \<longrightarrow>
                lc (n_projectName (items b ! i)) (n_projectName (items b ! j)) \<le> 0)"
proof (intro ballI allI impI)
  fix b i j
  assume b: "b \<in> set (groupByCategory lc cats navs)" and ij: "i < j \<and> j < length (items b)"
  from b obtain c where "items b = categoryItems lc navs c"
    unfolding set_groupByCategory by auto
  then have "sorted_wrt (\<lambda>x y. compareItems lc x y \<le> 0) (items b)"
    using consistent_compareItems[OF assms] by (simp add: categoryItems_def sorted_js_sort)
  with ij have "compareItems lc (items b ! i) (items b ! j) \<le> 0"
    by (simp add: sorted_wrt_iff_nth_less)
  then show "n_order (items b ! i) \<le> n_order (items b ! j)
           \<and> (n_order (items b ! i) = n_order (items b ! j) \<longrightarrow>
                lc (n_projectName (items b ! i)) (n_projectName (items b ! j)) \<le> 0)"
    unfolding compareItems_le0 by auto
qed

text \<open>
  Claim C7 on the small site, with comparison by character codes as the collation: in the
  first block \<open>Api\<close> comes before \<open>Service\<close> at weight 1.
\<close>

theorem items_sorted_witness:
  "consistent_comparator codepointCompare
   \<and> map (\<lambda>b. map (\<lambda>it. (n_order it, n_projectName it)) (items b)) exBlocks
       = [[(1, ''Api''), (1, ''Service''), (3, ''Service'')], [(1, ''Docs'')], [(1, ''Runbook'')]]
   \<and> n_order (items (exBlocks ! 0) ! 0) \<le> n_order (items (exBlocks ! 0) ! 1)
   \<and> n_order (items (exBlocks ! 0) ! 0) = n_order (items (exBlocks ! 0) ! 1)
   \<and> codepointCompare (n_projectName (items (exBlocks ! 0) ! 0))
        (n_projectName (items (exBlocks ! 0) ! 1)) \<le> 0"
proof -
  have v: "map (\<lambda>b. map (\<lambda>it. (n_order it, n_projectName it)) (items b)) exBlocks
       = [[(1, ''Api''), (1, ''Service''), (3, ''Service'')], [(1, ''Docs'')], [(1, ''Runbook'')]]"
    by code_simp
  have l: "length exBlocks = 3" by code_simp
  then have m: "exBlocks ! 0 \<in> set exBlocks" by simp
  have li: "length (items (exBlocks ! 0)) = 3" by code_simp
  have e: "n_order (items (exBlocks ! 0) ! 0) = n_order (items (exBlocks ! 0) ! 1)" by code_simp
  from items_sorted[OF consistent_codepointCompare, of exCategories "expandNavigationItems exProjects exEnvs"] m
  have "\<forall>i j. i < j \<and> j < length (items (exBlocks ! 0)) \<longrightarrow>
           n_order (items (exBlocks ! 0) ! i) \<le> n_order (items (exBlocks ! 0) ! j)
           \<and> (n_order (items (exBlocks ! 0) ! i) = n_order (items (exBlocks ! 0) ! j) \<longrightarrow>
                codepointCompare (n_projectName (items (exBlocks ! 0) ! i)) (n_projectName (items (exBlocks ! 0) ! j)) \<le> 0)"
    unfolding exBlocks_def by blast
  then have "n_order (items (exBlocks ! 0) ! 0) \<le> n_order (items (exBlocks ! 0) ! 1)
           \<and> (n_order (items (exBlocks ! 0) ! 0) = n_order (items (exBlocks ! 0) ! 1) \<longrightarrow>
                codepointCompare (n_projectName (items (exBlocks ! 0) ! 0)) (n_projectName (items (exBlocks ! 0) ! 1)) \<le> 0)"
    using li by simp
  with e v consistent_codepointCompare show ?thesis by blast
qed

text \<open>
  Claim C8, as stated, fails for a category with an explicit order above 999: the category
  without an order is placed before it.
\<close>

theorem absent_order_before_explicit_order:
  "map (\<lambda>b. (c_id (category b), c_order (category b)))
     (groupByCategory codepointCompare exLateCategories exLateItems)
   = [(''plain'', None), (''late'', Some 1000)]"
  by code_simp

text \<open>
  Claim C8, amended: the blocks are in ascending order of the category's \<open>order\<close>, an
  absent \<open>order\<close> counting as 999; categories with the same effective order keep their
  relative order from the input; and a category without an order comes after every category
  whose explicit order is below 999.
\<close>

theorem blocks_sorted:
  "sorted (map orderOrDefault (map category (groupByCategory lc cats navs)))
   \<and> (\<forall>c\<in>set cats. orderOrDefault c = (case c_order c of None \<Rightarrow> 999 | Some n \<Rightarrow> n))
   \<and> (\<forall>k. filter (\<lambda>c. orderOrDefault c = k) (map category (groupByCategory lc cats navs)) =
            filter (\<lambda>c. orderOrDefault c = k) (filter (\<lambda>c. categoryItems lc navs c \<noteq> []) cats))
   \<and> (\<forall>i j. i < length (groupByCategory lc cats navs) \<and> j < length (groupByCategory lc cats navs)
          \<and> c_order (category (groupByCategory lc cats navs ! i)) = None
          \<and> (\<exists>n. c_order (category (groupByCategory lc cats navs ! j)) = Some n \<and> n < 999)
          \<longrightarrow> j < i)"
proof (intro conjI allI impI ballI)
  show srt: "sorted (map orderOrDefault (map category (groupByCategory lc cats navs)))"
    unfolding categories_groupByCategory by (rule sorted_js_sort_key)
  show "orderOrDefault c = (case c_order c of None \<Rightarrow> 999 | Some n \<Rightarrow> n)" for c
    by (simp add: orderOrDefault_def)
  show "filter (\<lambda>c. orderOrDefault c = k) (map category (groupByCategory lc cats navs)) =
        filter (\<lambda>c. orderOrDefault c = k) (filter (\<lambda>c. categoryItems lc navs c \<noteq> []) cats)" for k
    unfolding categories_groupByCategory
    by (rule stable_js_sort) simp
  fix i j
  let ?out = "groupByCategory lc cats navs"
  assume h: "i < length ?out \<and> j < length ?out
          \<and> c_order (category (?out ! i)) = None
          \<and> (\<exists>n. c_order (category (?out ! j)) = Some n \<and> n < 999)"
  then obtain n where n: "c_order (category (?out ! j)) = Some n" "n < 999" by blast
  show "j < i"
  proof (rule ccontr)
    assume "\<not> j < i"
    with h have "i \<le> j" by simp
    with srt h have "map orderOrDefault (map category ?out) ! i \<le> map orderOrDefault (map category ?out) ! j"
      by (simp add: sorted_iff_nth_mono del: map_map)
    with h have "orderOrDefault (category (?out ! i)) \<le> orderOrDefault (category (?out ! j))"
      by simp
    with h n show False by (simp add: orderOrDefault_def)
  qed
qed

text \<open>
  Claim C8, amended, on the small site: the category without an order comes after the one
  with order 1, and stays in front of the one with the explicit order 999 that follows it
  in the input.
\<close>

theorem blocks_sorted_witness:
  "map (\<lambda>c. (c_id c, c_order c)) (map category exBlocks)
     = [(''infra'', Some 1), (''misc'', None), (''ops'', Some 999)]
   \<and> 1 < length exBlocks \<and> 0 < length exBlocks
   \<and> c_order (category (exBlocks ! 1)) = None
   \<and> c_order (category (exBlocks ! 0)) = Some 1 \<and> (1::int) < 999
   \<and> (0::nat) < 1"
proof -
  have v: "map (\<lambda>c. (c_id c, c_order c)) (map category exBlocks)
     = [(''infra'', Some 1), (''misc'', None), (''ops'', Some 999)]"
    by code_simp
  have l: "length exBlocks = 3" by code_simp
  have a: "c_order (category (exBlocks ! 1)) = None" by code_simp
  have b: "c_order (category (exBlocks ! 0)) = Some 1" by code_simp
  from blocks_sorted[of codepointCompare exCategories "expandNavigationItems exProjects exEnvs"]
  have "\<forall>i j. i < length exBlocks \<and> j < length exBlocks
          \<and> c_order (category (exBlocks ! i)) = None
          \<and> (\<exists>n. c_order (category (exBlocks ! j)) = Some n \<and> n < 999)
          \<longrightarrow> j < i"
    unfolding exBlocks_def by blast
  with l a b have "(0::nat) < 1" by blast
  with v l a b show ?thesis by simp
qed

text \<open>
  Claim C9: no block of the aggregation has an empty item list, and every item of every
  block is enabled.
\<close>

theorem blocks_nonempty_enabled:
  "\<forall>b\<in>set (groupByCategory lc cats navs). items b \<noteq> [] \<and> (\<forall>it\<in>set (items b). n_enabled it)"
  unfolding set_groupByCategory by (auto simp: set_categoryItems)

text \<open>
  Claim C9 on the small site: the category without projects has no block, and the disabled
  staging record of \<open>api\<close> is in no block.
\<close>

theorem blocks_nonempty_enabled_witness:
  "map (\<lambda>b. map n_id (items b)) exBlocks
     = [[''api-prod'', ''svc-prod'', ''svc-test''], [''doc-prod''], [''run-prod'']]
   \<and> items (exBlocks ! 0) \<noteq> []
   \<and> n_enabled (items (exBlocks ! 0) ! 0)"
proof -
  have v: "map (\<lambda>b. map n_id (items b)) exBlocks
     = [[''api-prod'', ''svc-prod'', ''svc-test''], [''doc-prod''], [''run-prod'']]"
    by code_simp
  have l: "length exBlocks = 3" by code_simp
  then have m: "exBlocks ! 0 \<in> set exBlocks" by simp
  with blocks_nonempty_enabled[of codepointCompare exCategories "expandNavigationItems exProjects exEnvs"]
  have ne: "items (exBlocks ! 0) \<noteq> []" and en: "\<forall>it\<in>set (items (exBlocks ! 0)). n_enabled it"
    unfolding exBlocks_def by blast+
  from ne have "items (exBlocks ! 0) ! 0 \<in> set (items (exBlocks ! 0))" by simp
  with en have "n_enabled (items (exBlocks ! 0) ! 0)" by blast
  with v ne show ?thesis by blast
qed

text \<open>
  Claim C10: when the category ids are pairwise distinct, every enabled item whose
  \<open>categoryId\<close> is the id of some category is in exactly one block; every block belongs to
  a category of the input, and each of its items is an enabled item of the input that carries
  the id of the block's category.
\<close>

theorem blocks_partition_items:
  assumes "distinct (map c_id cats)"
  shows "(\<forall>it\<in>set navs. n_enabled it \<and> n_categoryId it \<in> c_id ` set cats \<longrightarrow>
            length (filter (\<lambda>b. it \<in> set (items b)) (groupByCategory lc cats navs)) = 1)
       \<and> (\<forall>b\<in>set (groupByCategory lc cats navs). category b \<in> set cats \<and>
            (\<forall>it\<in>set (items b). it \<in> set navs \<and> n_enabled it \<and> n_categoryId it = c_id (category b)))"
proof (intro conjI ballI impI)
  fix it
  assume it: "it \<in> set navs" and en: "n_enabled it \<and> n_categoryId it \<in> c_id ` set cats"
  let ?mk = "\<lambda>c. \<lparr> category = c, items = categoryItems lc navs c \<rparr>"
  have mem: "it \<in> set (categoryItems lc navs c) \<longleftrightarrow> c_id c = n_categoryId it" for c
    using it en by (auto simp: set_categoryItems)
  have "length (filter (\<lambda>b. it \<in> set (items b)) (groupByCategory lc cats navs)) =
        length (filter (\<lambda>b. it \<in> set (items b))
          (filter (\<lambda>block. length (items block) > 0) (map ?mk cats)))"
    by (simp add: groupByCategory_def filter_length_js_sort)
  also have "\<dots> = length (filter (\<lambda>c. categoryItems lc navs c \<noteq> [] \<and> it \<in> set (categoryItems lc navs c)) cats)"
    by (simp add: filter_map comp_def)
  also have "(\<lambda>c. categoryItems lc navs c \<noteq> [] \<and> it \<in> set (categoryItems lc navs c)) =
             (\<lambda>c. c_id c = n_categoryId it)"
  proof (rule ext)
    fix c
    have "it \<in> set (categoryItems lc navs c) \<Longrightarrow> categoryItems lc navs c \<noteq> []"
      by auto
    then show "(categoryItems lc navs c \<noteq> [] \<and> it \<in> set (categoryItems lc navs c)) =
               (c_id c = n_categoryId it)"
      using mem[of c] by blast
  qed
  also have "length (filter (\<lambda>c. c_id c = n_categoryId it) cats) = 1"
    using assms en by (simp add: distinct_map_filter_one)
  finally show "length (filter (\<lambda>b. it \<in> set (items b)) (groupByCategory lc cats navs)) = 1" .
next
  fix b
  assume "b \<in> set (groupByCategory lc cats navs)"
  then show "category b \<in> set cats"
    unfolding set_groupByCategory by auto
next
  fix b it
  assume "b \<in> set (groupByCategory lc cats navs)" and "it \<in> set (items b)"
  then show "it \<in> set navs" "n_enabled it" "n_categoryId it = c_id (category b)"
    unfolding set_groupByCategory by (auto simp: set_categoryItems)
qed

text \<open>
  Claim C10 on the small site: the production item of \<open>svc\<close> is in exactly one block.
\<close>

theorem blocks_partition_items_witness:
  "distinct (map c_id exCategories)
   \<and> navItem (exProject ''svc'' ''Service'' ''infra'') (exEnv ''svc'' Prod ''https://prod.example.com'' True)
       \<in> set (expandNavigationItems exProjects exEnvs)
   \<and> length (filter (\<lambda>b. navItem (exProject ''svc'' ''Service'' ''infra'')
                            (exEnv ''svc'' Prod ''https://prod.example.com'' True) \<in> set (items b))
        exBlocks) = 1"
proof -
  let ?it = "navItem (exProject ''svc'' ''Service'' ''infra'') (exEnv ''svc'' Prod ''https://prod.example.com'' True)"
  have d: "distinct (map c_id exCategories)" by code_simp
  have m: "?it \<in> set (expandNavigationItems exProjects exEnvs)"
    by code_simp
  have e: "n_enabled ?it \<and> n_categoryId ?it \<in> c_id ` set exCategories"
    by (simp add: navItem_def exEnv_def exProject_def exCategories_def exCategory_def)
  from blocks_partition_items[OF d, of "expandNavigationItems exProjects exEnvs" codepointCompare] m e
  have "length (filter (\<lambda>b. ?it \<in> set (items b)) exBlocks) = 1"
    unfolding exBlocks_def by blast
  with d m show ?thesis by blast
qed

section \<open>Validation: sets, schemas and validators\<close>

lemma set_add_all_eq:
  "distinct seen \<Longrightarrow>
     distinct (set_add_all (=) seen xs) \<and> set (set_add_all (=) seen xs) = set seen \<union> set xs"
  by (induction xs arbitrary: seen) (auto simp: list_ex_iff)

lemma distinct_spreadSet: "distinct (spreadSet xs)"
  using set_add_all_eq[of "[]" xs] by (simp add: spreadSet_def)

lemma set_spreadSet: "set (spreadSet xs) = set xs"
  using set_add_all_eq[of "[]" xs] by (simp add: spreadSet_def)


























lemma indexOf_from_eq:
  "indexOf_from ys x k =
     (if x \<in> set ys then int (k + length (takeWhile (\<lambda>y. y \<noteq> x) ys)) else - 1)"
  by (induction ys arbitrary: k) auto

lemma takeWhile_stops_early:
  "\<exists>y\<in>set ys. \<not> P y \<Longrightarrow> length (takeWhile P ys) < length ys"
  by (induction ys) auto

lemma indexOf_at_position:
  "indexOf (pre @ a # xs) a = int (length pre) \<longleftrightarrow> a \<notin> set pre"
proof (cases "a \<in> set pre")
  case True
  then have "takeWhile (\<lambda>y. y \<noteq> a) (pre @ a # xs) = takeWhile (\<lambda>y. y \<noteq> a) pre"
    by (intro takeWhile_append1[of a]) simp_all
  moreover from True have "length (takeWhile (\<lambda>y. y \<noteq> a) pre) < length pre"
    by (intro takeWhile_stops_early) auto
  ultimately have "length (takeWhile (\<lambda>y. y \<noteq> a) (pre @ a # xs)) < length pre"
    by simp
  with True show ?thesis by (simp add: indexOf_def indexOf_from_eq)
next
  case False
  then have "takeWhile (\<lambda>y. y \<noteq> a) (pre @ a # xs) = pre"
    by (subst takeWhile_append2) auto
  with False show ?thesis by (simp add: indexOf_def indexOf_from_eq)
qed

lemma later_occurrences:
  "count_list
     (map fst (filter (\<lambda>(x, index). indexOf (pre @ xs) x \<noteq> int index)
                 (zip xs [length pre..<length pre + length xs]))) x
   = (if x \<in> set pre then count_list xs x else count_list xs x - 1)"
proof (induction xs arbitrary: pre)
  case Nil
  then show ?case by simp
next
  case (Cons a xs)
  have "length pre < length pre + length (a # xs)" by simp
  then have "[length pre..<length pre + length (a # xs)] =
      length pre # [Suc (length pre)..<length pre + length (a # xs)]"
    by (rule upt_conv_Cons)
  moreover have "Suc (length pre) = length (pre @ [a])"
    and "length pre + length (a # xs) = length (pre @ [a]) + length xs" by simp_all
  ultimately have upt: "[length pre..<length pre + length (a # xs)] =
      length pre # [length (pre @ [a])..<length (pre @ [a]) + length xs]"
    by (simp only:)
  have app: "pre @ a # xs = (pre @ [a]) @ xs" by simp
  have ih: "count_list
     (map fst (filter (\<lambda>(x, index). indexOf (pre @ a # xs) x \<noteq> int index)
                 (zip xs [length (pre @ [a])..<length (pre @ [a]) + length xs]))) x
     = (if x \<in> set (pre @ [a]) then count_list xs x else count_list xs x - 1)"
    unfolding app by (rule Cons.IH)
  show ?case
    unfolding upt using ih indexOf_at_position[of pre a xs]
    by (auto simp del: upt_Suc)
qed

lemma count_notFirstOccurrence:
  "count_list (notFirstOccurrence xs) x = count_list xs x - 1"
  using later_occurrences[of "[]" xs x] by (simp add: notFirstOccurrence_def)


lemma set_notFirstOccurrence: "set (notFirstOccurrence xs) = {x. 2 \<le> count_list xs x}"
proof -
  have "x \<in> set (notFirstOccurrence xs) \<longleftrightarrow> 2 \<le> count_list xs x" for x
    using count_notFirstOccurrence[of xs x] count_list_0_iff[of "notFirstOccurrence xs" x]
    by auto
  then show ?thesis by blast
qed

section \<open>Validation: the entry point once the files are loaded\<close>

























section \<open>Validation: the checks on parsed data\<close>
















section \<open>Properties of the validation script\<close>

text \<open>
  Claim C1 does not hold for the id and name uniqueness checks: with three categories of
  the id \<open>a\<close> the error names \<open>a\<close> twice, and likewise a project id and a project name
  that occur three times. The checks of the env records pass their lists through a set
  first and name \<open>q\<close> and \<open>q-prod\<close> once.
\<close>

theorem repeated_id_named_per_extra_occurrence:
  "validateCategories
     (JArr [rawCategory ''a'' ''One'', rawCategory ''a'' ''Two'', rawCategory ''a'' ''Three''])
     = \<lparr> valid = False, errors = [''Duplicate category IDs: a, a''] \<rparr>
   \<and> validateProjects
     (JArr [rawProject ''p'' ''N'' ''a'', rawProject ''p'' ''N'' ''a'', rawProject ''p'' ''N'' ''a''])
     = \<lparr> valid = False,
         errors = [''Duplicate project IDs: p, p'', ''Duplicate project names: N, N''] \<rparr>
   \<and> validateProjectEnvs exUrlParser
     (JArr [rawEnv ''q'' ''prod'' ''https://x'', rawEnv ''q'' ''prod'' ''https://x'',
            rawEnv ''q'' ''prod'' ''https://x'']) [JStr ''a''] [JStr ''p'']
     = \<lparr> valid = False,
         errors = [''ProjectEnv references non-existent projectIds: q'',
                   ''Duplicate projectId-env combinations: q-prod''] \<rparr>"
  by code_simp













end
